theory Spec2Isabelle
  imports Main "HOL-Library.Multiset"
begin

section \<open>Data model\<close>

text \<open>
  The repository holds two versions of the inventory component that the specification
  describes: \<^verbatim>\<open>src/unnamed/part_000\<close> (four drop cases, no item description or stats
  input) and \<^verbatim>\<open>src/rpg-inventory-local/src/App.tsx\<close> (three drop cases, stats
  parsing).  Definitions that differ between the two carry the suffix \<open>_p0\<close> for the
  former and \<open>_app\<close> for the latter; definitions without suffix are the same in both.
  The third file, \<^verbatim>\<open>src/BU/App_0.1.tsx\<close>, is an earlier prototype with eight slots
  and neither catalog nor storage; it is not modelled.

  The React component state \<^verbatim>\<open>items\<close>, \<^verbatim>\<open>storageOrder\<close>, \<^verbatim>\<open>slots\<close> is a
  record that every operation takes and returns.  One event handler runs to completion
  on the state of the last render; the updater functions it queues are applied in the
  order in which they are queued, each once (the second invocation of updaters that
  React's strict mode adds in development builds is not modelled).
\<close>

text \<open>
  Two kinds of JavaScript strings occur.  The identifiers (item ids, slot identifiers, the
  container identifier) are only compared; they are values of type \<open>string\<close>.  The
  texts of the form (name, icon, description, stats text) are trimmed and split; they are
  lists of UTF-16 code units, each a natural number below 65536, so that every character
  that \<^verbatim>\<open>String.prototype.trim\<close> removes is a value of the model.  \<open>codeUnits\<close>
  gives the code units of a text written in ASCII.
\<close>

type_synonym jsString = "nat list"

definition codeUnits :: "string \<Rightarrow> jsString" where
  "codeUnits s = map of_char s"

text \<open>
  \<^verbatim>\<open>type Stats = Record<string, string | number>\<close>.  The numeric domain is a type
  parameter.  \<open>Undefined\<close> is the JavaScript value \<^verbatim>\<open>undefined\<close>, which the type
  annotation excludes but \<^verbatim>\<open>addItem\<close> can store.
\<close>

datatype 'n stat_value = NumV 'n | StrV jsString | Undefined

record 'n item =
  item_id :: string
  item_name :: jsString
  item_icon :: "jsString option"
  item_description :: "jsString option"
  item_stats :: "jsString \<rightharpoonup> 'n stat_value"

text \<open>\<^verbatim>\<open>type SlotsState = Record<string, string | null>\<close>; \<open>None\<close> is \<^verbatim>\<open>null\<close>.\<close>

type_synonym SlotsState = "string \<Rightarrow> string option"

record 'n state =
  items :: "'n item list"
  storageOrder :: "string list"
  slots :: SlotsState

definition SLOT_IDS :: "string list" where
  "SLOT_IDS = [''head'', ''body'', ''mainHand'', ''offHand'', ''legs'']"

definition isSlotId :: "string \<Rightarrow> bool" where
  "isSlotId i = (i \<in> set SLOT_IDS)"

text \<open>The three \<^verbatim>\<open>useState\<close> initial values.\<close>

definition initial :: "'n state" where
  "initial = \<lparr>items = [], storageOrder = [], slots = (\<lambda>k. None)\<rparr>"

text \<open>The three state setters, called with an updater function.\<close>

definition setItems :: "('n item list \<Rightarrow> 'n item list) \<Rightarrow> 'n state \<Rightarrow> 'n state" where
  "setItems f s = s\<lparr>items := f (items s)\<rparr>"

definition setStorageOrder :: "(string list \<Rightarrow> string list) \<Rightarrow> 'n state \<Rightarrow> 'n state" where
  "setStorageOrder f s = s\<lparr>storageOrder := f (storageOrder s)\<rparr>"

definition setSlots :: "(SlotsState \<Rightarrow> SlotsState) \<Rightarrow> 'n state \<Rightarrow> 'n state" where
  "setSlots f s = s\<lparr>slots := f (slots s)\<rparr>"

section \<open>Library functions used by the handlers\<close>

text \<open>\<^verbatim>\<open>Array.prototype.indexOf\<close>: the first index of the element, \<open>-1\<close> when absent.\<close>

fun indexOf :: "'a list \<Rightarrow> 'a \<Rightarrow> int" where
  "indexOf [] x = - 1"
| "indexOf (y # ys) x =
     (if y = x then 0 else (let r = indexOf ys x in if r < 0 then - 1 else r + 1))"

text \<open>
  The start index of \<^verbatim>\<open>Array.prototype.splice\<close> on an array of length \<open>n\<close>: a
  negative start counts from the end, and the result is clamped to \<open>0..n\<close>.
\<close>

definition splice_start :: "int \<Rightarrow> nat \<Rightarrow> nat" where
  "splice_start i n = (if i < 0 then nat (max (int n + i) 0) else min (nat i) n)"

text \<open>
  \<^verbatim>\<open>arrayMove\<close> is imported from the package \<^verbatim>\<open>@dnd-kit/sortable\<close>, whose
  implementation is
  \<^verbatim>\<open>
  function arrayMove(array, from, to) {
    const newArray = array.slice();
    newArray.splice(to < 0 ? newArray.length + to : to, 0,
                    newArray.splice(from, 1)[0]);
    return newArray;
  }
  \<close>
  The first argument of the outer \<^verbatim>\<open>splice\<close> is evaluated before the inner one
  removes the element.  When \<open>from\<close> lies past the end nothing is removed and the
  inserted element is \<^verbatim>\<open>undefined\<close>; the result is then not a list of ids, and
  the model returns \<open>None\<close>.
\<close>

definition arrayMove :: "'a list \<Rightarrow> int \<Rightarrow> int \<Rightarrow> 'a list option" where
  "arrayMove array from to =
     (let n = length array;
          target = (if to < 0 then int n + to else to);
          f = splice_start from n;
          removed = take 1 (drop f array);
          newArray = take f array @ drop (Suc f) array;
          t = splice_start target (length newArray)
      in case removed of
           [] \<Rightarrow> None
         | x # _ \<Rightarrow> Some (take t newArray @ [x] @ drop t newArray))"

text \<open>
  \<^verbatim>\<open>String.prototype.trim\<close> removes the leading and the trailing white space and
  line terminators of ECMAScript: tab U+0009, line feed U+000A, vertical tab U+000B, form
  feed U+000C, carriage return U+000D, space U+0020, no-break space U+00A0, U+1680,
  U+2000 to U+200A, the line and paragraph separators U+2028 and U+2029, U+202F, U+205F,
  U+3000 and the byte order mark U+FEFF.  Each is one code unit.
\<close>

definition is_space :: "nat \<Rightarrow> bool" where
  "is_space c =
     (c \<in> {0x09, 0x0A, 0x0B, 0x0C, 0x0D, 0x20, 0xA0, 0x1680, 0x2028, 0x2029, 0x202F,
            0x205F, 0x3000, 0xFEFF} \<or>
      (0x2000 \<le> c \<and> c \<le> 0x200A))"

definition trim :: "jsString \<Rightarrow> jsString" where
  "trim s = rev (dropWhile is_space (rev (dropWhile is_space s)))"

text \<open>
  \<^verbatim>\<open>String.prototype.split\<close> with a separator of one code unit: the pieces between
  the separators, at least one piece.
\<close>

fun split :: "nat \<Rightarrow> jsString \<Rightarrow> jsString list" where
  "split c [] = [[]]"
| "split c (x # xs) =
     (if x = c then [] # split c xs
      else (case split c xs of
              [] \<Rightarrow> [[x]]
            | w # ws \<Rightarrow> (x # w) # ws))"

section \<open>Operations\<close>

text \<open>
  The loop \<^verbatim>\<open>for (const k of SLOT_IDS) if (next[k] === itemId) next[k] = null;\<close>
  that \<^verbatim>\<open>deleteItem\<close>, \<^verbatim>\<open>unequip\<close>, \<^verbatim>\<open>unequipEverywhere\<close> and
  \<^verbatim>\<open>handleDragEnd\<close> each contain.
\<close>

definition clearFromSlots :: "string \<Rightarrow> SlotsState \<Rightarrow> SlotsState" where
  "clearFromSlots itemId next =
     fold (\<lambda>k m. if m k = Some itemId then m(k := None) else m) SLOT_IDS next"

definition deleteItem :: "string \<Rightarrow> 'n state \<Rightarrow> 'n state" where
  "deleteItem i s =
     setSlots (clearFromSlots i)
       (setStorageOrder (filter (\<lambda>x. x \<noteq> i))
         (setItems (filter (\<lambda>it. item_id it \<noteq> i)) s))"

text \<open>\<^verbatim>\<open>unequipEverywhere\<close> of part_000 and \<^verbatim>\<open>unequip\<close> of App.tsx.\<close>

definition unequipEverywhere :: "string \<Rightarrow> 'n state \<Rightarrow> 'n state" where
  "unequipEverywhere itemId s = setSlots (clearFromSlots itemId) s"

definition unequip :: "string \<Rightarrow> 'n state \<Rightarrow> 'n state" where
  "unequip itemId s = setSlots (clearFromSlots itemId) s"

definition moveToStorageAtIndex :: "string \<Rightarrow> int \<Rightarrow> 'n state \<Rightarrow> 'n state" where
  "moveToStorageAtIndex itemId toIndex s =
     setStorageOrder
       (\<lambda>prev.
          let without = filter (\<lambda>x. x \<noteq> itemId) prev;
              clamped = nat (max 0 (min toIndex (int (length without))))
          in take clamped without @ [itemId] @ drop clamped without) s"

text \<open>
  \<^verbatim>\<open>handleDragEnd\<close> of part_000 (lines 228 to 290).  A missing id
  (\<^verbatim>\<open>undefined\<close>) and the empty string are both falsy; the empty string stands for
  both.  \<^verbatim>\<open>storageOrder\<close> in the handler is the value of the last render, which is
  the storage order of the state the handler is applied to.

  In the equipment branch the updater passed to \<^verbatim>\<open>setSlots\<close> reads the slot's
  occupant \<^verbatim>\<open>replaced\<close> from the previous slots, tests it against the handler's
  \<^verbatim>\<open>storageOrder\<close> and queues the append; the handler then queues the removal of
  \<open>activeId\<close> when \<open>inStorageActive\<close>.

  In the reorder branch \<^verbatim>\<open>arrayMove\<close> has no list of ids as result only when
  \<open>oldIndex\<close> is past the end, which the membership test excludes; the model leaves the
  list as it is there.
\<close>

definition handleDragEnd_p0 :: "string \<Rightarrow> string \<Rightarrow> 'n state \<Rightarrow> 'n state" where
  "handleDragEnd_p0 activeId overId s =
     (if activeId = [] \<or> overId = [] then s
      else
        let inStorageActive = (activeId \<in> set (storageOrder s));
            inStorageOver = (overId \<in> set (storageOrder s))
        in if inStorageActive \<and> inStorageOver then
             (let oldIndex = indexOf (storageOrder s) activeId;
                  newIndex = indexOf (storageOrder s) overId
              in if oldIndex \<noteq> newIndex
                 then setStorageOrder
                        (\<lambda>prev. case arrayMove prev oldIndex newIndex of
                                   Some moved \<Rightarrow> moved
                                 | None \<Rightarrow> prev) s
                 else s)
           else if overId = ''storage'' then
             (let s1 = unequipEverywhere activeId s
              in if \<not> inStorageActive
                 then setStorageOrder (\<lambda>prev. prev @ [activeId]) s1
                 else s1)
           else if inStorageOver then
             (let newIndex = indexOf (storageOrder s) overId;
                  s1 = unequipEverywhere activeId s
              in moveToStorageAtIndex activeId newIndex s1)
           else if isSlotId overId then
             (let targetSlot = overId;
                  replaced = slots s targetSlot;
                  s1 = setSlots
                         (\<lambda>prev. (clearFromSlots activeId prev)(targetSlot := Some activeId)) s;
                  s2 = (case replaced of
                          None \<Rightarrow> s1
                        | Some r \<Rightarrow>
                            if r \<noteq> [] \<and> r \<notin> set (storageOrder s)
                            then setStorageOrder (\<lambda>prevOrder. prevOrder @ [r]) s1
                            else s1)
              in if inStorageActive
                 then setStorageOrder (filter (\<lambda>x. x \<noteq> activeId)) s2
                 else s2)
           else s)"

text \<open>
  \<^verbatim>\<open>handleDragEnd\<close> of App.tsx (lines 290 to 328): the same without the insertion
  branch, and with \<^verbatim>\<open>unequip\<close> for \<^verbatim>\<open>unequipEverywhere\<close>.
\<close>

definition handleDragEnd_app :: "string \<Rightarrow> string \<Rightarrow> 'n state \<Rightarrow> 'n state" where
  "handleDragEnd_app activeId overId s =
     (if activeId = [] \<or> overId = [] then s
      else
        let inStorageActive = (activeId \<in> set (storageOrder s));
            inStorageOver = (overId \<in> set (storageOrder s))
        in if inStorageActive \<and> inStorageOver then
             (let oldIndex = indexOf (storageOrder s) activeId;
                  newIndex = indexOf (storageOrder s) overId
              in if oldIndex \<noteq> newIndex
                 then setStorageOrder
                        (\<lambda>prev. case arrayMove prev oldIndex newIndex of
                                   Some moved \<Rightarrow> moved
                                 | None \<Rightarrow> prev) s
                 else s)
           else if overId = ''storage'' then
             (let s1 = unequip activeId s
              in if \<not> inStorageActive
                 then setStorageOrder (\<lambda>prev. prev @ [activeId]) s1
                 else s1)
           else if isSlotId overId then
             (let replaced = slots s overId;
                  s1 = setSlots
                         (\<lambda>prev. (clearFromSlots activeId prev)(overId := Some activeId)) s;
                  s2 = (case replaced of
                          None \<Rightarrow> s1
                        | Some r \<Rightarrow>
                            if r \<noteq> [] \<and> r \<notin> set (storageOrder s)
                            then setStorageOrder (\<lambda>prev. prev @ [r]) s1
                            else s1)
              in if inStorageActive
                 then setStorageOrder (filter (\<lambda>x. x \<noteq> activeId)) s2
                 else s2)
           else s)"

text \<open>
  The three branches that the two versions share, named for the proofs: the reorder
  branch, the container branch and the equipment branch.
\<close>

definition reorderInStorage :: "string \<Rightarrow> string \<Rightarrow> 'n state \<Rightarrow> 'n state" where
  "reorderInStorage activeId overId s =
     (let oldIndex = indexOf (storageOrder s) activeId;
          newIndex = indexOf (storageOrder s) overId
      in if oldIndex \<noteq> newIndex
         then setStorageOrder
                (\<lambda>prev. case arrayMove prev oldIndex newIndex of
                           Some moved \<Rightarrow> moved
                         | None \<Rightarrow> prev) s
         else s)"

definition dropOnStorage :: "string \<Rightarrow> bool \<Rightarrow> 'n state \<Rightarrow> 'n state" where
  "dropOnStorage activeId inStorageActive s =
     (let s1 = unequipEverywhere activeId s
      in if \<not> inStorageActive
         then setStorageOrder (\<lambda>prev. prev @ [activeId]) s1
         else s1)"

definition equipInSlot :: "string \<Rightarrow> string \<Rightarrow> bool \<Rightarrow> 'n state \<Rightarrow> 'n state" where
  "equipInSlot activeId targetSlot inStorageActive s =
     (let replaced = slots s targetSlot;
          s1 = setSlots (\<lambda>prev. (clearFromSlots activeId prev)(targetSlot := Some activeId)) s;
          s2 = (case replaced of
                  None \<Rightarrow> s1
                | Some r \<Rightarrow>
                    if r \<noteq> [] \<and> r \<notin> set (storageOrder s)
                    then setStorageOrder (\<lambda>prevOrder. prevOrder @ [r]) s1
                    else s1)
      in if inStorageActive
         then setStorageOrder (filter (\<lambda>x. x \<noteq> activeId)) s2
         else s2)"

text \<open>
  The stats text of \<^verbatim>\<open>addItem\<close> in App.tsx (lines 250 to 254):
  \<^verbatim>\<open>
  newStats.split(",").forEach((pair) => {
    const [k, v] = pair.split("=").map((s) => s.trim());
    if (k) stats[k] = isNaN(Number(v)) ? v : Number(v);
  });
  \<close>
  \<^verbatim>\<open>Number\<close> on strings is a parameter \<open>toNumber\<close>, with \<open>None\<close> for
  \<^verbatim>\<open>NaN\<close>.  A pair without \<^verbatim>\<open>=\<close> leaves \<^verbatim>\<open>v\<close> undefined, and
  \<^verbatim>\<open>Number(undefined)\<close> is \<^verbatim>\<open>NaN\<close>.
\<close>

definition statValue :: "(jsString \<Rightarrow> 'n option) \<Rightarrow> jsString option \<Rightarrow> 'n stat_value" where
  "statValue toNumber v =
     (case v of
        None \<Rightarrow> Undefined
      | Some t \<Rightarrow> (case toNumber t of None \<Rightarrow> StrV t | Some n \<Rightarrow> NumV n))"

text \<open>
  The assignment \<^verbatim>\<open>stats[k] = value\<close> on a plain object.  The key
  \<^verbatim>\<open>__proto__\<close> names the prototype accessor: assigning a string, a number or
  \<^verbatim>\<open>undefined\<close> to it creates no entry.
\<close>

definition assignStat ::
  "(jsString \<rightharpoonup> 'n stat_value) \<Rightarrow> jsString \<Rightarrow> 'n stat_value \<Rightarrow> (jsString \<rightharpoonup> 'n stat_value)" where
  "assignStat stats k v = (if k = codeUnits ''__proto__'' then stats else stats(k \<mapsto> v))"

text \<open>The separators \<^verbatim>\<open>","\<close> and \<^verbatim>\<open>"="\<close> are the code units 44 and 61.\<close>

definition parsePair ::
  "(jsString \<Rightarrow> 'n option) \<Rightarrow> jsString \<Rightarrow> (jsString \<rightharpoonup> 'n stat_value)
     \<Rightarrow> (jsString \<rightharpoonup> 'n stat_value)" where
  "parsePair toNumber pair stats =
     (case map trim (split 61 pair) of
        [] \<Rightarrow> stats
      | [k] \<Rightarrow> if k \<noteq> [] then assignStat stats k (statValue toNumber None) else stats
      | k # v # _ \<Rightarrow> if k \<noteq> [] then assignStat stats k (statValue toNumber (Some v)) else stats)"

definition parseStats :: "(jsString \<Rightarrow> 'n option) \<Rightarrow> jsString \<Rightarrow> (jsString \<rightharpoonup> 'n stat_value)" where
  "parseStats toNumber newStats =
     fold (parsePair toNumber) (split 44 newStats) Map.empty"

text \<open>
  \<^verbatim>\<open>addItem\<close>.  Both paths of the source return normally: on a name that is empty
  after trimming the function returns before it calls \<^verbatim>\<open>crypto.randomUUID()\<close> or
  any setter, and nothing is thrown or reported.  The result of the model is \<open>Inr\<close> of a
  pair: the id drawn from \<^verbatim>\<open>crypto.randomUUID()\<close>, or \<open>None\<close> when the call was
  not made, and the state after the queued updates.  \<open>Inl e\<close> would be an error \<open>e\<close>
  raised by the call; \<open>ValidationError\<close> is the error that the specification names, and
  no path of the source produces it.  The argument \<open>uid\<close> is the value that
  \<^verbatim>\<open>crypto.randomUUID()\<close> returns when it is called.  The form fields, which a
  successful call resets, are arguments and not part of the state.
\<close>

datatype error = ValidationError

definition addItem_app ::
  "(jsString \<Rightarrow> 'n option) \<Rightarrow> string \<Rightarrow> jsString \<Rightarrow> jsString \<Rightarrow> jsString \<Rightarrow> jsString
     \<Rightarrow> 'n state \<Rightarrow> error + (string option \<times> 'n state)" where
  "addItem_app toNumber uid newName newIcon newDesc newStats s =
     (if trim newName = [] then Inr (None, s)
      else
        let stats = parseStats toNumber newStats;
            newItem = \<lparr>item_id = uid, item_name = trim newName,
                       item_icon = (if newIcon = [] then None else Some newIcon),
                       item_description = Some newDesc,
                       item_stats = stats\<rparr>
        in Inr (Some uid,
                setStorageOrder (\<lambda>prev. prev @ [uid])
                  (setItems (\<lambda>prev. prev @ [newItem]) s)))"

definition addItem_p0 ::
  "string \<Rightarrow> jsString \<Rightarrow> jsString \<Rightarrow> 'n state \<Rightarrow> error + (string option \<times> 'n state)" where
  "addItem_p0 uid newName newIcon s =
     (if trim newName = [] then Inr (None, s)
      else
        let newItem = \<lparr>item_id = uid, item_name = trim newName,
                       item_icon = (if newIcon = [] then None else Some newIcon),
                       item_description = None,
                       item_stats = Map.empty\<rparr>
        in Inr (Some uid,
                setStorageOrder (\<lambda>prev. prev @ [uid])
                  (setItems (\<lambda>prev. prev @ [newItem]) s)))"

section \<open>Requests and reachable states\<close>

text \<open>
  The three requests of the specification: \<open>Create uid name icon description statsText\<close>,
  \<open>Remove itemId\<close> and \<open>Move activeId targetId\<close>.  The state after a creation is the
  state that \<^verbatim>\<open>addItem\<close> leaves.
\<close>

datatype request =
  Create string jsString jsString jsString jsString
| Remove string
| Move string string

fun apply_p0 :: "request \<Rightarrow> 'n state \<Rightarrow> 'n state" where
  "apply_p0 (Create uid newName newIcon newDesc newStats) s =
     (case addItem_p0 uid newName newIcon s of Inl e \<Rightarrow> s | Inr (drawn, s') \<Rightarrow> s')"
| "apply_p0 (Remove i) s = deleteItem i s"
| "apply_p0 (Move activeId overId) s = handleDragEnd_p0 activeId overId s"

fun apply_app :: "(jsString \<Rightarrow> 'n option) \<Rightarrow> request \<Rightarrow> 'n state \<Rightarrow> 'n state" where
  "apply_app toNumber (Create uid newName newIcon newDesc newStats) s =
     (case addItem_app toNumber uid newName newIcon newDesc newStats s of
        Inl e \<Rightarrow> s | Inr (drawn, s') \<Rightarrow> s')"
| "apply_app toNumber (Remove i) s = deleteItem i s"
| "apply_app toNumber (Move activeId overId) s = handleDragEnd_app activeId overId s"

text \<open>
  The ids the state mentions: of the catalog, of the storage order, and held by an
  equipment slot.
\<close>

definition catalogIds :: "'n state \<Rightarrow> string set" where
  "catalogIds s = item_id ` set (items s)"

definition equippedIds :: "'n state \<Rightarrow> string set" where
  "equippedIds s = {x. Some x \<in> slots s ` set SLOT_IDS}"

text \<open>
  A request is admissible when the id of a creation is fresh: \<^verbatim>\<open>crypto.randomUUID()\<close>
  returns an id that the state does not mention.  Removals and moves are admissible with
  any arguments.
\<close>

fun admissible :: "'n state \<Rightarrow> request \<Rightarrow> bool" where
  "admissible s (Create uid newName newIcon newDesc newStats) =
     (uid \<notin> catalogIds s \<and> uid \<notin> set (storageOrder s) \<and> uid \<notin> equippedIds s)"
| "admissible s (Remove i) = True"
| "admissible s (Move activeId overId) = True"

inductive reachable :: "(request \<Rightarrow> 'n state \<Rightarrow> 'n state) \<Rightarrow> 'n state \<Rightarrow> bool"
  for ap :: "request \<Rightarrow> 'n state \<Rightarrow> 'n state" where
  reachable_initial: "reachable ap initial"
| reachable_step: "reachable ap s \<Longrightarrow> admissible s r \<Longrightarrow> reachable ap (ap r s)"

section \<open>Vocabulary of the claims\<close>

text \<open>Removing the element at an index and inserting an element at an index.\<close>

definition removeAt :: "nat \<Rightarrow> 'a list \<Rightarrow> 'a list" where
  "removeAt i xs = take i xs @ drop (Suc i) xs"

definition insertAt :: "nat \<Rightarrow> 'a \<Rightarrow> 'a list \<Rightarrow> 'a list" where
  "insertAt j x xs = take j xs @ [x] @ drop j xs"

text \<open>No item id is held by two distinct equipment slots.\<close>

definition slotsInjective :: "SlotsState \<Rightarrow> bool" where
  "slotsInjective m =
     (\<forall>k1\<in>set SLOT_IDS. \<forall>k2\<in>set SLOT_IDS. m k1 \<noteq> None \<and> m k1 = m k2 \<longrightarrow> k1 = k2)"

definition noDuplication :: "'n state \<Rightarrow> bool" where
  "noDuplication s = (distinct (storageOrder s) \<and> slotsInjective (slots s))"

text \<open>
  The catalog invariant of the data model: every id in the storage order or held by an
  equipment slot is the id of an item of the catalog.
\<close>

definition refsInCatalog :: "'n state \<Rightarrow> bool" where
  "refsInCatalog s = (set (storageOrder s) \<union> equippedIds s \<subseteq> catalogIds s)"

text \<open>
  The partition of the catalog: no id is both in the storage order and held by an
  equipment slot, and every id of the catalog is one of the two.  A move is a re-drop when
  its target is the slot that holds the dragged item.
\<close>

definition partitioned :: "'n state \<Rightarrow> bool" where
  "partitioned s =
     (set (storageOrder s) \<inter> equippedIds s = {} \<and>
      catalogIds s \<subseteq> set (storageOrder s) \<union> equippedIds s)"

definition isRedrop :: "'n state \<Rightarrow> request \<Rightarrow> bool" where
  "isRedrop s r = (case r of Move activeId overId \<Rightarrow> slots s overId = Some activeId | _ \<Rightarrow> False)"

text \<open>A sequence of requests, applied from left to right.\<close>

definition run_p0 :: "request list \<Rightarrow> 'n state \<Rightarrow> 'n state" where
  "run_p0 rs s = fold apply_p0 rs s"

definition run_app :: "(jsString \<Rightarrow> 'n option) \<Rightarrow> request list \<Rightarrow> 'n state \<Rightarrow> 'n state" where
  "run_app toNumber rs s = fold (apply_app toNumber) rs s"

text \<open>Every request of a sequence is admissible in the state it is applied to.\<close>

fun admissibleRun ::
  "(request \<Rightarrow> 'n state \<Rightarrow> 'n state) \<Rightarrow> 'n state \<Rightarrow> request list \<Rightarrow> bool" where
  "admissibleRun ap s [] = True"
| "admissibleRun ap s (r # rs) = (admissible s r \<and> admissibleRun ap (ap r s) rs)"

text \<open>
  Concrete states and request sequences of the scenarios.  The ids are short names where
  the program would have UUIDs.
\<close>

definition item_named :: "string \<Rightarrow> 'n item" where
  "item_named i = \<lparr>item_id = i, item_name = codeUnits i, item_icon = None,
                    item_description = None, item_stats = Map.empty\<rparr>"

definition state_abc :: "nat state" where
  "state_abc = \<lparr>items = map item_named [''a'', ''b'', ''c''],
                 storageOrder = [''a'', ''b'', ''c''], slots = (\<lambda>k. None)\<rparr>"

definition state_sword_equipped :: "nat state" where
  "state_sword_equipped =
     \<lparr>items = map item_named [''sword'', ''shield''],
      storageOrder = [''shield''], slots = (\<lambda>k. None)(''mainHand'' := Some ''sword'')\<rparr>"

definition requests_equip :: "request list" where
  "requests_equip =
     [Create ''sword'' (codeUnits ''Sword'') [] [] [],
      Create ''shield'' (codeUnits ''Shield'') [] [] [],
      Move ''sword'' ''mainHand'', Move ''shield'' ''mainHand'']"

definition requests_redrop :: "request list" where
  "requests_redrop =
     [Create ''sword'' (codeUnits ''Sword'') [] [] [],
      Move ''sword'' ''head'', Move ''sword'' ''head'']"

text \<open>A reading of numbers that recognises none, for the concrete runs.\<close>

definition noNumber :: "jsString \<Rightarrow> nat option" where
  "noNumber t = None"

section \<open>Basic facts about the operations\<close>

lemma setItems_sel [simp]:
  "items (setItems f s) = f (items s)"
  "storageOrder (setItems f s) = storageOrder s"
  "slots (setItems f s) = slots s"
  by (simp_all add: setItems_def)

lemma setStorageOrder_sel [simp]:
  "items (setStorageOrder f s) = items s"
  "storageOrder (setStorageOrder f s) = f (storageOrder s)"
  "slots (setStorageOrder f s) = slots s"
  by (simp_all add: setStorageOrder_def)

lemma setSlots_sel [simp]:
  "items (setSlots f s) = items s"
  "storageOrder (setSlots f s) = storageOrder s"
  "slots (setSlots f s) = f (slots s)"
  by (simp_all add: setSlots_def)

lemma state_eqI:
  fixes s t :: "'n state"
  shows "items s = items t \<Longrightarrow> storageOrder s = storageOrder t \<Longrightarrow> slots s = slots t \<Longrightarrow> s = t"
  by simp

lemma clear_fold:
  "fold (\<lambda>k m. if m k = Some i then m(k := None) else m) ks m k =
     (if k \<in> set ks \<and> m k = Some i then None else m k)"
  by (induction ks arbitrary: m) auto

lemma clearFromSlots_apply:
  "clearFromSlots i m k = (if isSlotId k \<and> m k = Some i then None else m k)"
  by (simp add: clearFromSlots_def isSlotId_def clear_fold)

lemma unequipEverywhere_sel [simp]:
  "items (unequipEverywhere a s) = items s"
  "storageOrder (unequipEverywhere a s) = storageOrder s"
  "slots (unequipEverywhere a s) = clearFromSlots a (slots s)"
  by (simp_all add: unequipEverywhere_def)

lemma unequip_eq: "unequip a s = unequipEverywhere a s"
  by (simp add: unequip_def unequipEverywhere_def)

lemma equipInSlot_items [simp]: "items (equipInSlot a t b s) = items s"
  by (simp add: equipInSlot_def Let_def split: option.split)

lemma equipInSlot_slots [simp]:
  "slots (equipInSlot a t b s) = (clearFromSlots a (slots s))(t := Some a)"
  by (simp add: equipInSlot_def Let_def fun_upd_def split: option.split)

lemma equipInSlot_storage:
  "storageOrder (equipInSlot a t b s) =
     (let pushed = (case slots s t of
                      None \<Rightarrow> storageOrder s
                    | Some r \<Rightarrow> if r \<noteq> [] \<and> r \<notin> set (storageOrder s)
                                then storageOrder s @ [r] else storageOrder s)
      in if b then filter (\<lambda>x. x \<noteq> a) pushed else pushed)"
  by (simp add: equipInSlot_def Let_def split: option.split)

lemma reorderInStorage_items [simp]: "items (reorderInStorage a t s) = items s"
  by (simp add: reorderInStorage_def Let_def split: option.split)

lemma reorderInStorage_slots [simp]: "slots (reorderInStorage a t s) = slots s"
  by (simp add: reorderInStorage_def Let_def split: option.split)

lemma dropOnStorage_items [simp]: "items (dropOnStorage a b s) = items s"
  by (simp add: dropOnStorage_def Let_def)

lemma dropOnStorage_slots [simp]: "slots (dropOnStorage a b s) = clearFromSlots a (slots s)"
  by (simp add: dropOnStorage_def Let_def)

lemma dropOnStorage_storage [simp]:
  "storageOrder (dropOnStorage a b s) = (if b then storageOrder s else storageOrder s @ [a])"
  by (simp add: dropOnStorage_def Let_def)

lemma moveToStorageAtIndex_items [simp]: "items (moveToStorageAtIndex a i s) = items s"
  by (simp add: moveToStorageAtIndex_def)

lemma moveToStorageAtIndex_slots [simp]: "slots (moveToStorageAtIndex a i s) = slots s"
  by (simp add: moveToStorageAtIndex_def)

text \<open>The two handlers in terms of the named branches.\<close>

lemma handleDragEnd_p0_branches:
  "handleDragEnd_p0 activeId overId s =
     (if activeId = [] \<or> overId = [] then s
      else if activeId \<in> set (storageOrder s) \<and> overId \<in> set (storageOrder s)
        then reorderInStorage activeId overId s
      else if overId = ''storage''
        then dropOnStorage activeId (activeId \<in> set (storageOrder s)) s
      else if overId \<in> set (storageOrder s)
        then moveToStorageAtIndex activeId (indexOf (storageOrder s) overId)
               (unequipEverywhere activeId s)
      else if isSlotId overId
        then equipInSlot activeId overId (activeId \<in> set (storageOrder s)) s
      else s)"
  by (simp add: handleDragEnd_p0_def reorderInStorage_def dropOnStorage_def equipInSlot_def
      Let_def)

lemma handleDragEnd_app_branches:
  "handleDragEnd_app activeId overId s =
     (if activeId = [] \<or> overId = [] then s
      else if activeId \<in> set (storageOrder s) \<and> overId \<in> set (storageOrder s)
        then reorderInStorage activeId overId s
      else if overId = ''storage''
        then dropOnStorage activeId (activeId \<in> set (storageOrder s)) s
      else if isSlotId overId
        then equipInSlot activeId overId (activeId \<in> set (storageOrder s)) s
      else s)"
  by (simp add: handleDragEnd_app_def reorderInStorage_def dropOnStorage_def equipInSlot_def
      unequip_eq Let_def)

section \<open>The catalog is a frame of every move\<close>

text \<open>
  Claim C10.  For every state and every move request, neither version of
  \<^verbatim>\<open>handleDragEnd\<close> changes the list of items: the catalog after the call is the
  catalog before it, item by item and field by field.
\<close>

theorem handleDragEnd_keeps_catalog:
  "items (handleDragEnd_p0 activeId targetId s) = items s \<and>
   items (handleDragEnd_app activeId targetId s) = items s"
  by (simp add: handleDragEnd_p0_branches handleDragEnd_app_branches Let_def)

section \<open>Facts about the list functions\<close>

lemma indexOf_mem:
  "x \<in> set xs \<Longrightarrow>
     0 \<le> indexOf xs x \<and> indexOf xs x < int (length xs) \<and> xs ! nat (indexOf xs x) = x"
  by (induction xs) (auto simp: Let_def nat_add_distrib)

lemma indexOf_not_mem: "x \<notin> set xs \<Longrightarrow> indexOf xs x = - 1"
  by (induction xs) (auto simp: Let_def)

lemma indexOf_eq_imp_eq:
  assumes "a \<in> set xs" "b \<in> set xs" "indexOf xs a = indexOf xs b"
  shows "a = b"
  using indexOf_mem [OF assms(1)] indexOf_mem [OF assms(2)] assms(3) by metis

lemma length_removeAt: "i < length xs \<Longrightarrow> length (removeAt i xs) = length xs - 1"
  by (simp add: removeAt_def)

lemma mset_removeAt: "i < length xs \<Longrightarrow> mset (removeAt i xs) + {#xs ! i#} = mset xs"
proof -
  assume a: "i < length xs"
  have "xs = take i xs @ xs ! i # drop (Suc i) xs" using a by (simp add: id_take_nth_drop)
  then have "mset xs = mset (take i xs @ xs ! i # drop (Suc i) xs)" by simp
  then show ?thesis by (simp add: removeAt_def)
qed

lemma mset_insertAt: "mset (insertAt j x xs) = mset xs + {#x#}"
proof -
  have "mset (take j xs) + mset (drop j xs) = mset xs"
    by (metis append_take_drop_id mset_append)
  then show ?thesis by (simp add: insertAt_def)
qed

lemma set_insertAt: "set (insertAt j x xs) = insert x (set xs)"
proof -
  have "set (take j xs) \<union> set (drop j xs) = set xs"
    by (metis append_take_drop_id set_append)
  then show ?thesis by (auto simp: insertAt_def)
qed

lemma nth_insertAt: "j \<le> length xs \<Longrightarrow> insertAt j x xs ! j = x"
  by (simp add: insertAt_def nth_append)

lemma nth_Suc_insertAt: "j < length xs \<Longrightarrow> insertAt j x xs ! Suc j = xs ! j"
  by (simp add: insertAt_def nth_append)

lemma distinct_insertAt: "distinct xs \<Longrightarrow> x \<notin> set xs \<Longrightarrow> distinct (insertAt j x xs)"
proof -
  assume d: "distinct xs" and x: "x \<notin> set xs"
  have "distinct (take j xs @ drop j xs)" using d by simp
  then have "distinct (take j xs)" "distinct (drop j xs)"
    "set (take j xs) \<inter> set (drop j xs) = {}"
    by (simp_all only: distinct_append)
  moreover have "x \<notin> set (take j xs)" "x \<notin> set (drop j xs)"
    using x by (auto dest: in_set_takeD in_set_dropD)
  ultimately show ?thesis by (auto simp: insertAt_def)
qed

lemma arrayMove_in_range:
  assumes "i < length xs" "j < length xs"
  shows "arrayMove xs (int i) (int j) = Some (insertAt j (xs ! i) (removeAt i xs))"
proof -
  have d: "drop i xs = xs ! i # drop (Suc i) xs"
    using assms(1) by (simp add: Cons_nth_drop_Suc)
  have m: "min i (length xs) = i" using assms by simp
  have "j \<le> length xs - Suc 0" using assms by simp
  then show ?thesis
    by (simp add: arrayMove_def splice_start_def Let_def d m insertAt_def removeAt_def
        min_absorb1 min_absorb2 assms less_imp_le)
qed

lemma arrayMove_indexOf:
  assumes "a \<in> set xs" "t \<in> set xs"
  shows "arrayMove xs (indexOf xs a) (indexOf xs t) =
           Some (insertAt (nat (indexOf xs t)) a (removeAt (nat (indexOf xs a)) xs))"
proof -
  let ?i = "nat (indexOf xs a)" and ?j = "nat (indexOf xs t)"
  have i: "?i < length xs" "int ?i = indexOf xs a" "xs ! ?i = a"
    using indexOf_mem [OF assms(1)] by auto
  have j: "?j < length xs" "int ?j = indexOf xs t"
    using indexOf_mem [OF assms(2)] by auto
  show ?thesis using arrayMove_in_range [OF i(1) j(1)] i j by simp
qed

section \<open>Reordering within the storage\<close>

lemma reorderInStorage_storage:
  assumes "a \<in> set (storageOrder s)" "t \<in> set (storageOrder s)"
  shows "storageOrder (reorderInStorage a t s) =
           (if indexOf (storageOrder s) a = indexOf (storageOrder s) t then storageOrder s
            else insertAt (nat (indexOf (storageOrder s) t)) a
                   (removeAt (nat (indexOf (storageOrder s) a)) (storageOrder s)))"
  by (simp add: reorderInStorage_def Let_def arrayMove_indexOf [OF assms])

lemma mset_reorderInStorage:
  assumes "a \<in> set (storageOrder s)" "t \<in> set (storageOrder s)"
  shows "mset (storageOrder (reorderInStorage a t s)) = mset (storageOrder s)"
proof (cases "indexOf (storageOrder s) a = indexOf (storageOrder s) t")
  case True
  then show ?thesis by (simp add: reorderInStorage_storage [OF assms])
next
  case False
  let ?xs = "storageOrder s"
  let ?i = "nat (indexOf ?xs a)"
  have i: "?i < length ?xs" "?xs ! ?i = a" using indexOf_mem [OF assms(1)] by auto
  have "mset (removeAt ?i ?xs) + {#a#} = mset ?xs"
    using mset_removeAt [OF i(1)] by (simp only: i(2))
  then have "mset (insertAt (nat (indexOf ?xs t)) a (removeAt ?i ?xs)) = mset ?xs"
    by (simp only: mset_insertAt)
  then show ?thesis using False by (simp only: reorderInStorage_storage [OF assms] if_False)
qed

lemma handleDragEnd_reorder:
  assumes "activeId \<in> set (storageOrder s)" "targetId \<in> set (storageOrder s)"
    and "activeId \<noteq> []" "targetId \<noteq> []"
  shows "handleDragEnd_p0 activeId targetId s = reorderInStorage activeId targetId s"
    and "handleDragEnd_app activeId targetId s = reorderInStorage activeId targetId s"
  using assms by (simp_all add: handleDragEnd_p0_branches handleDragEnd_app_branches)

text \<open>
  Claim C2, as amended.  Let \<open>activeId\<close> and \<open>targetId\<close> be non-empty ids that are both
  members of the storage order, and let \<open>h\<close> be either version of \<^verbatim>\<open>handleDragEnd\<close>.
  The slots and the catalog are unchanged.  When the two \<^verbatim>\<open>indexOf\<close> results differ,
  the new storage order is the old one with \<open>activeId\<close> removed from its index and
  inserted at the index that \<open>targetId\<close> had before the removal: \<open>activeId\<close> ends at
  exactly that index, and the stored ids are the same as before.  When the two results are
  equal the state is unchanged.
\<close>

theorem reorder_within_storage:
  assumes "activeId \<in> set (storageOrder s)" and "targetId \<in> set (storageOrder s)"
    and "activeId \<noteq> []" and "targetId \<noteq> []"
    and "h = handleDragEnd_p0 \<or> h = handleDragEnd_app"
  shows "slots (h activeId targetId s) = slots s \<and>
         items (h activeId targetId s) = items s \<and>
         (indexOf (storageOrder s) activeId \<noteq> indexOf (storageOrder s) targetId \<longrightarrow>
            storageOrder (h activeId targetId s) =
              insertAt (nat (indexOf (storageOrder s) targetId)) activeId
                (removeAt (nat (indexOf (storageOrder s) activeId)) (storageOrder s)) \<and>
            storageOrder (h activeId targetId s) ! nat (indexOf (storageOrder s) targetId)
              = activeId \<and>
            mset (storageOrder (h activeId targetId s)) = mset (storageOrder s)) \<and>
         (indexOf (storageOrder s) activeId = indexOf (storageOrder s) targetId \<longrightarrow>
            h activeId targetId s = s)"
proof -
  let ?xs = "storageOrder s"
  let ?i = "nat (indexOf ?xs activeId)" and ?j = "nat (indexOf ?xs targetId)"
  have h: "h activeId targetId s = reorderInStorage activeId targetId s"
    using assms(5) handleDragEnd_reorder [OF assms(1-4)] by auto
  have sl: "slots (h activeId targetId s) = slots s" by (simp add: h)
  have it: "items (h activeId targetId s) = items s" by (simp add: h)
  have i: "?i < length ?xs" "?xs ! ?i = activeId" using indexOf_mem [OF assms(1)] by auto
  have j: "?j < length ?xs" using indexOf_mem [OF assms(2)] by auto
  have ne: "storageOrder (h activeId targetId s) = insertAt ?j activeId (removeAt ?i ?xs) \<and>
            storageOrder (h activeId targetId s) ! ?j = activeId \<and>
            mset (storageOrder (h activeId targetId s)) = mset ?xs"
    if d: "indexOf ?xs activeId \<noteq> indexOf ?xs targetId"
  proof -
    have st: "storageOrder (h activeId targetId s) = insertAt ?j activeId (removeAt ?i ?xs)"
      using d by (simp add: h reorderInStorage_storage [OF assms(1,2)])
    have "?j \<le> length (removeAt ?i ?xs)" using i j by (simp add: length_removeAt)
    then have nth: "insertAt ?j activeId (removeAt ?i ?xs) ! ?j = activeId"
      by (rule nth_insertAt)
    have ms: "mset (storageOrder (h activeId targetId s)) = mset ?xs"
      by (simp only: h mset_reorderInStorage [OF assms(1,2)])
    show ?thesis using st nth ms by simp
  qed
  have eq: "h activeId targetId s = s" if "indexOf ?xs activeId = indexOf ?xs targetId"
    using that by (simp add: h reorderInStorage_def)
  show ?thesis using sl it ne eq by blast
qed

theorem reorder_within_storage_witness:
  "''a'' \<in> set (storageOrder state_abc) \<and> ''c'' \<in> set (storageOrder state_abc) \<and>
   storageOrder (handleDragEnd_p0 ''a'' ''c'' state_abc) = [''b'', ''c'', ''a''] \<and>
   slots (handleDragEnd_p0 ''a'' ''c'' state_abc) = slots state_abc"
proof -
  have m: "''a'' \<in> set (storageOrder state_abc)" "''c'' \<in> set (storageOrder state_abc)"
    by (simp_all add: state_abc_def)
  have n: "''a'' \<noteq> []" "''c'' \<noteq> []" by simp_all
  have i: "indexOf (storageOrder state_abc) ''a'' = 0" "indexOf (storageOrder state_abc) ''c'' = 2"
    by (simp_all add: state_abc_def)
  have r: "insertAt 2 ''a'' (removeAt 0 (storageOrder state_abc)) = [''b'', ''c'', ''a'']"
    by (simp add: state_abc_def insertAt_def removeAt_def)
  show ?thesis
    using reorder_within_storage [OF m n, of handleDragEnd_p0] m i r by simp
qed

text \<open>
  The scenario of claim C2 as the claim states it: on the storage order \<open>[a, b, c]\<close>,
  dropping \<open>a\<close> onto \<open>c\<close> gives \<open>[b, c, a]\<close> in both versions, not \<open>[b, a, c]\<close>.  The
  index of \<open>c\<close> after the removal of \<open>a\<close> is 1; \<open>a\<close> ends at index 2.
\<close>

theorem reorder_scenario_counterexample:
  "storageOrder (handleDragEnd_p0 ''a'' ''c'' state_abc) = [''b'', ''c'', ''a''] \<and>
   storageOrder (handleDragEnd_app ''a'' ''c'' state_abc) = [''b'', ''c'', ''a''] \<and>
   storageOrder (handleDragEnd_p0 ''a'' ''c'' state_abc) \<noteq> [''b'', ''a'', ''c''] \<and>
   indexOf (removeAt 0 (storageOrder state_abc)) ''c'' = 1"
  by (simp add: handleDragEnd_p0_branches handleDragEnd_app_branches reorderInStorage_def state_abc_def
      arrayMove_def splice_start_def removeAt_def Let_def)

section \<open>No duplication\<close>

lemma clearFromSlots_keep: "clearFromSlots i m k \<noteq> None \<Longrightarrow> clearFromSlots i m k = m k"
  by (simp add: clearFromSlots_apply split: if_splits)

lemma clearFromSlots_cleared: "isSlotId k \<Longrightarrow> clearFromSlots i m k \<noteq> Some i"
  by (simp add: clearFromSlots_apply)

lemma slotsInjectiveD:
  "slotsInjective m \<Longrightarrow> isSlotId k1 \<Longrightarrow> isSlotId k2 \<Longrightarrow> m k1 \<noteq> None \<Longrightarrow> m k1 = m k2
     \<Longrightarrow> k1 = k2"
  unfolding slotsInjective_def isSlotId_def by blast

lemma slotsInjective_clear:
  assumes "slotsInjective m"
  shows "slotsInjective (clearFromSlots i m)"
  unfolding slotsInjective_def
proof (intro ballI impI)
  fix k1 k2
  assume k: "k1 \<in> set SLOT_IDS" "k2 \<in> set SLOT_IDS"
    and h: "clearFromSlots i m k1 \<noteq> None \<and> clearFromSlots i m k1 = clearFromSlots i m k2"
  from h have h1: "clearFromSlots i m k1 \<noteq> None"
    and h2: "clearFromSlots i m k1 = clearFromSlots i m k2" by blast+
  have 1: "clearFromSlots i m k1 = m k1" using h1 by (rule clearFromSlots_keep)
  have "clearFromSlots i m k2 \<noteq> None" using h1 h2 by metis
  then have 2: "clearFromSlots i m k2 = m k2" by (rule clearFromSlots_keep)
  have "m k1 \<noteq> None" "m k1 = m k2" using h1 h2 1 2 by metis+
  then show "k1 = k2" using assms k slotsInjectiveD [of m k1 k2] by (simp add: isSlotId_def)
qed

lemma slotsInjective_equip:
  assumes "slotsInjective m"
  shows "slotsInjective ((clearFromSlots a m)(t := Some a))"
  unfolding slotsInjective_def
proof (intro ballI impI)
  fix k1 k2
  let ?m = "(clearFromSlots a m)(t := Some a)"
  assume k: "k1 \<in> set SLOT_IDS" "k2 \<in> set SLOT_IDS"
    and h: "?m k1 \<noteq> None \<and> ?m k1 = ?m k2"
  have c1: "clearFromSlots a m k1 \<noteq> Some a" and c2: "clearFromSlots a m k2 \<noteq> Some a"
    using k by (simp_all add: clearFromSlots_cleared isSlotId_def)
  show "k1 = k2"
  proof (cases "k1 = t \<or> k2 = t")
    case True
    then show ?thesis using h c1 c2 by (auto split: if_splits)
  next
    case False
    then have "?m k1 = clearFromSlots a m k1" "?m k2 = clearFromSlots a m k2" by simp_all
    then have "clearFromSlots a m k1 \<noteq> None \<and> clearFromSlots a m k1 = clearFromSlots a m k2"
      using h by metis
    then show ?thesis
      using slotsInjective_clear [OF assms, of a] k unfolding slotsInjective_def by blast
  qed
qed

lemma moveToStorageAtIndex_storage:
  "storageOrder (moveToStorageAtIndex a i s) =
     insertAt (nat (max 0 (min i (int (length (filter (\<lambda>x. x \<noteq> a) (storageOrder s)))))))
       a (filter (\<lambda>x. x \<noteq> a) (storageOrder s))"
  by (simp add: moveToStorageAtIndex_def Let_def insertAt_def)

lemma noDuplication_deleteItem: "noDuplication s \<Longrightarrow> noDuplication (deleteItem i s)"
  by (simp add: noDuplication_def deleteItem_def slotsInjective_clear)

lemma noDuplication_reorder:
  assumes "noDuplication s" "a \<in> set (storageOrder s)" "t \<in> set (storageOrder s)"
  shows "noDuplication (reorderInStorage a t s)"
proof -
  have "distinct (storageOrder (reorderInStorage a t s)) = distinct (storageOrder s)"
    using mset_reorderInStorage [OF assms(2,3)] by (rule mset_eq_imp_distinct_iff)
  then show ?thesis using assms(1) by (simp add: noDuplication_def)
qed

lemma noDuplication_dropOnStorage:
  "noDuplication s \<Longrightarrow> noDuplication (dropOnStorage a (a \<in> set (storageOrder s)) s)"
  by (simp add: noDuplication_def slotsInjective_clear)

lemma noDuplication_insert:
  "noDuplication s \<Longrightarrow> noDuplication (moveToStorageAtIndex a i (unequipEverywhere a s))"
  by (simp add: noDuplication_def slotsInjective_clear moveToStorageAtIndex_storage
      distinct_insertAt)

lemma noDuplication_equip:
  "noDuplication s \<Longrightarrow> noDuplication (equipInSlot a t b s)"
  by (auto simp: noDuplication_def slotsInjective_equip equipInSlot_storage Let_def
      split: option.split)

lemma noDuplication_handleDragEnd_p0:
  "noDuplication s \<Longrightarrow> noDuplication (handleDragEnd_p0 a t s)"
  by (simp add: handleDragEnd_p0_branches Let_def noDuplication_reorder noDuplication_dropOnStorage
      noDuplication_insert noDuplication_equip)

lemma noDuplication_handleDragEnd_app:
  "noDuplication s \<Longrightarrow> noDuplication (handleDragEnd_app a t s)"
  by (simp add: handleDragEnd_app_branches Let_def noDuplication_reorder noDuplication_dropOnStorage
      noDuplication_equip)

lemma noDuplication_initial: "noDuplication initial"
  by (simp add: noDuplication_def initial_def slotsInjective_def)

lemma noDuplication_apply_p0:
  "noDuplication s \<Longrightarrow> admissible s r \<Longrightarrow> noDuplication (apply_p0 r s)"
proof (cases r)
  case (Create uid nm ic de st)
  assume "noDuplication s" "admissible s r"
  then show ?thesis using Create
    by (simp add: addItem_p0_def Let_def noDuplication_def)
next
  case (Remove i)
  assume "noDuplication s"
  then show ?thesis using Remove by (simp add: noDuplication_deleteItem)
next
  case (Move a t)
  assume "noDuplication s"
  then show ?thesis using Move by (simp add: noDuplication_handleDragEnd_p0)
qed

lemma noDuplication_apply_app:
  "noDuplication s \<Longrightarrow> admissible s r \<Longrightarrow> noDuplication (apply_app toNumber r s)"
proof (cases r)
  case (Create uid nm ic de st)
  assume "noDuplication s" "admissible s r"
  then show ?thesis using Create
    by (simp add: addItem_app_def Let_def noDuplication_def)
next
  case (Remove i)
  assume "noDuplication s"
  then show ?thesis using Remove by (simp add: noDuplication_deleteItem)
next
  case (Move a t)
  assume "noDuplication s"
  then show ?thesis using Move by (simp add: noDuplication_handleDragEnd_app)
qed

lemma reachable_noDuplication:
  assumes "reachable ap s"
    and "\<And>s r. noDuplication s \<Longrightarrow> admissible s r \<Longrightarrow> noDuplication (ap r s)"
  shows "noDuplication s"
  using assms(1)
proof (induction rule: reachable.induct)
  case reachable_initial
  show ?case by (rule noDuplication_initial)
next
  case (reachable_step s r)
  then show ?case using assms(2) by blast
qed

lemma reachable_fold:
  "reachable ap s \<Longrightarrow> admissibleRun ap s rs \<Longrightarrow> reachable ap (fold ap rs s)"
proof (induction rs arbitrary: s)
  case Nil
  then show ?case by simp
next
  case (Cons r rs)
  from Cons.prems have "reachable ap (ap r s)" by (simp add: reachable_step)
  moreover from Cons.prems have "admissibleRun ap (ap r s) rs" by simp
  ultimately show ?case using Cons.IH by simp
qed

lemma admissibleRun_equip_p0: "admissibleRun apply_p0 (initial :: nat state) requests_equip"
  by (simp add: requests_equip_def initial_def addItem_p0_def catalogIds_def equippedIds_def
      trim_def is_space_def codeUnits_def SLOT_IDS_def)

lemma reachable_equip_p0: "reachable apply_p0 (run_p0 requests_equip (initial :: nat state))"
  unfolding run_p0_def
  by (rule reachable_fold [OF reachable_initial admissibleRun_equip_p0])

lemma run_requests_equip:
  "storageOrder (run_p0 requests_equip (initial :: nat state)) = [''sword'']"
  "map (slots (run_p0 requests_equip (initial :: nat state))) SLOT_IDS
     = [None, None, Some ''shield'', None, None]"
  by (simp_all add: run_p0_def requests_equip_def initial_def addItem_p0_def trim_def
      is_space_def codeUnits_def handleDragEnd_p0_branches isSlotId_def SLOT_IDS_def equipInSlot_storage
      clearFromSlots_apply Let_def)

text \<open>
  Claim C6.  In every state that either version reaches from the initial state by
  admissible requests (creations with a fresh id, removals and moves with any arguments),
  the storage order has no id twice and no id is held by two distinct equipment slots.
\<close>

theorem no_duplication_reachable:
  assumes "reachable apply_p0 s \<or> reachable (apply_app toNumber) s"
  shows "distinct (storageOrder s) \<and>
         (\<forall>k1\<in>set SLOT_IDS. \<forall>k2\<in>set SLOT_IDS.
            slots s k1 \<noteq> None \<and> slots s k1 = slots s k2 \<longrightarrow> k1 = k2)"
proof -
  have "noDuplication s"
    using assms
      reachable_noDuplication [of apply_p0 s, OF _ noDuplication_apply_p0]
      reachable_noDuplication [of "apply_app toNumber" s, OF _ noDuplication_apply_app]
    by blast
  then show ?thesis unfolding noDuplication_def slotsInjective_def .
qed

theorem no_duplication_reachable_witness:
  "reachable apply_p0 (run_p0 requests_equip (initial :: nat state)) \<and>
   storageOrder (run_p0 requests_equip (initial :: nat state)) = [''sword''] \<and>
   slots (run_p0 requests_equip (initial :: nat state)) ''mainHand'' = Some ''shield'' \<and>
   distinct (storageOrder (run_p0 requests_equip (initial :: nat state)))"
proof -
  have r: "reachable apply_p0 (run_p0 requests_equip (initial :: nat state))
           \<or> reachable (apply_app noNumber) (run_p0 requests_equip (initial :: nat state))"
    using reachable_equip_p0 by simp
  show ?thesis
    using no_duplication_reachable [OF r] reachable_equip_p0 run_requests_equip
    by (simp add: SLOT_IDS_def)
qed

section \<open>The partition of the catalog\<close>

lemma admissibleRun_redrop_p0: "admissibleRun apply_p0 (initial :: nat state) requests_redrop"
  by (simp add: requests_redrop_def initial_def addItem_p0_def catalogIds_def equippedIds_def
      trim_def is_space_def codeUnits_def SLOT_IDS_def)

lemma admissibleRun_redrop_app:
  "admissibleRun (apply_app noNumber) (initial :: nat state) requests_redrop"
  by (simp add: requests_redrop_def initial_def addItem_app_def catalogIds_def equippedIds_def
      trim_def is_space_def codeUnits_def SLOT_IDS_def)

lemma run_p0_redrop:
  "map item_id (items (run_p0 requests_redrop (initial :: nat state))) = [''sword'']"
  "storageOrder (run_p0 requests_redrop (initial :: nat state)) = [''sword'']"
  "slots (run_p0 requests_redrop (initial :: nat state)) ''head'' = Some ''sword''"
  by (simp_all add: run_p0_def requests_redrop_def initial_def addItem_p0_def trim_def
      is_space_def codeUnits_def handleDragEnd_p0_branches isSlotId_def SLOT_IDS_def equipInSlot_storage
      clearFromSlots_apply Let_def)

lemma run_app_redrop:
  "map item_id (items (run_app noNumber requests_redrop (initial :: nat state))) = [''sword'']"
  "storageOrder (run_app noNumber requests_redrop (initial :: nat state)) = [''sword'']"
  "slots (run_app noNumber requests_redrop (initial :: nat state)) ''head'' = Some ''sword''"
  by (simp_all add: run_app_def requests_redrop_def initial_def addItem_app_def trim_def
      is_space_def codeUnits_def handleDragEnd_app_branches isSlotId_def SLOT_IDS_def equipInSlot_storage
      clearFromSlots_apply Let_def)

text \<open>
  Claim C1 at the input it names.  An item is created, dropped onto the slot
  \<^verbatim>\<open>head\<close>, and dropped onto \<^verbatim>\<open>head\<close> again while that slot holds it.  The
  equipment branch takes the slot's occupant, which is the dragged item itself, finds it
  absent from the storage order and appends it; the slot is then set to the dragged item
  again.  In both versions the state reached has the item in the catalog, held by the slot
  and in the storage order at once.
\<close>

theorem partition_broken_by_redrop:
  "reachable apply_p0 (run_p0 requests_redrop (initial :: nat state)) \<and>
   ''sword'' \<in> catalogIds (run_p0 requests_redrop (initial :: nat state)) \<and>
   slots (run_p0 requests_redrop (initial :: nat state)) ''head'' = Some ''sword'' \<and>
   ''sword'' \<in> set (storageOrder (run_p0 requests_redrop (initial :: nat state))) \<and>
   reachable (apply_app noNumber) (run_app noNumber requests_redrop (initial :: nat state)) \<and>
   ''sword'' \<in> catalogIds (run_app noNumber requests_redrop (initial :: nat state)) \<and>
   slots (run_app noNumber requests_redrop (initial :: nat state)) ''head'' = Some ''sword'' \<and>
   ''sword'' \<in> set (storageOrder (run_app noNumber requests_redrop (initial :: nat state)))"
proof -
  have r0: "reachable apply_p0 (run_p0 requests_redrop (initial :: nat state))"
    unfolding run_p0_def by (rule reachable_fold [OF reachable_initial admissibleRun_redrop_p0])
  have r1: "reachable (apply_app noNumber) (run_app noNumber requests_redrop (initial :: nat state))"
    unfolding run_app_def by (rule reachable_fold [OF reachable_initial admissibleRun_redrop_app])
  have c0: "''sword'' \<in> catalogIds (run_p0 requests_redrop (initial :: nat state))"
    using run_p0_redrop(1) by (simp add: catalogIds_def flip: set_map)
  have c1: "''sword'' \<in> catalogIds (run_app noNumber requests_redrop (initial :: nat state))"
    using run_app_redrop(1) by (simp add: catalogIds_def flip: set_map)
  show ?thesis using r0 r1 c0 c1 run_p0_redrop(2,3) run_app_redrop(2,3) by simp
qed

section \<open>The equipment, container and insertion branches\<close>

lemma isSlotId_not_reserved: "isSlotId t \<Longrightarrow> t \<noteq> [] \<and> t \<noteq> ''storage''"
  by (auto simp: isSlotId_def SLOT_IDS_def)

lemma handleDragEnd_equip:
  assumes "isSlotId targetId" "activeId \<noteq> []" "targetId \<notin> set (storageOrder s)"
  shows "handleDragEnd_p0 activeId targetId s =
           equipInSlot activeId targetId (activeId \<in> set (storageOrder s)) s"
    and "handleDragEnd_app activeId targetId s =
           equipInSlot activeId targetId (activeId \<in> set (storageOrder s)) s"
  using assms isSlotId_not_reserved [OF assms(1)]
  by (simp_all add: handleDragEnd_p0_branches handleDragEnd_app_branches)

lemma handleDragEnd_container:
  assumes "activeId \<noteq> []" "''storage'' \<notin> set (storageOrder s)"
  shows "handleDragEnd_p0 activeId ''storage'' s =
           dropOnStorage activeId (activeId \<in> set (storageOrder s)) s"
    and "handleDragEnd_app activeId ''storage'' s =
           dropOnStorage activeId (activeId \<in> set (storageOrder s)) s"
  using assms by (simp_all add: handleDragEnd_p0_branches handleDragEnd_app_branches)

lemma handleDragEnd_p0_insert:
  assumes "targetId \<in> set (storageOrder s)" "activeId \<notin> set (storageOrder s)"
    and "activeId \<noteq> []" "targetId \<noteq> []" "targetId \<noteq> ''storage''"
  shows "handleDragEnd_p0 activeId targetId s =
           moveToStorageAtIndex activeId (indexOf (storageOrder s) targetId)
             (unequipEverywhere activeId s)"
  using assms by (simp add: handleDragEnd_p0_branches)

text \<open>
  Claim C3.  Let \<open>targetId\<close> be a slot identifier (and, as slot identifiers are not item
  ids, not a member of the storage order), \<open>activeId\<close> a non-empty id, and \<open>h\<close> either
  version of \<^verbatim>\<open>handleDragEnd\<close>.  Then for every state: the catalog is unchanged; the
  slot \<open>targetId\<close> holds \<open>activeId\<close>, every other equipment slot that held \<open>activeId\<close>
  is empty, and all remaining slots are as before; the storage order is the old one, with
  the occupant of \<open>targetId\<close> appended when there is one and it is not yet a member, and
  with \<open>activeId\<close> removed when it was a member.  Consequently, when the slot held an
  item \<open>y\<close> other than \<open>activeId\<close> that was not in the storage order, afterwards \<open>y\<close>
  is the last element of the storage order, the slot holds \<open>activeId\<close>, and \<open>activeId\<close>
  is not in the storage order.
\<close>

theorem equip_into_slot:
  assumes "isSlotId targetId" and "activeId \<noteq> []" and "targetId \<notin> set (storageOrder s)"
    and "h = handleDragEnd_p0 \<or> h = handleDragEnd_app"
  shows "items (h activeId targetId s) = items s \<and>
         (\<forall>k. slots (h activeId targetId s) k =
                (if k = targetId then Some activeId
                 else if isSlotId k \<and> slots s k = Some activeId then None
                 else slots s k)) \<and>
         storageOrder (h activeId targetId s) =
           (let pushed = (case slots s targetId of
                            None \<Rightarrow> storageOrder s
                          | Some y \<Rightarrow> if y \<noteq> [] \<and> y \<notin> set (storageOrder s)
                                      then storageOrder s @ [y] else storageOrder s)
            in if activeId \<in> set (storageOrder s)
               then filter (\<lambda>x. x \<noteq> activeId) pushed else pushed) \<and>
         (\<forall>y. slots s targetId = Some y \<and> y \<noteq> [] \<and> y \<noteq> activeId \<and>
                y \<notin> set (storageOrder s) \<longrightarrow>
                storageOrder (h activeId targetId s) \<noteq> [] \<and>
                last (storageOrder (h activeId targetId s)) = y \<and>
                slots (h activeId targetId s) targetId = Some activeId \<and>
                activeId \<notin> set (storageOrder (h activeId targetId s)))"
proof -
  have h: "h activeId targetId s =
             equipInSlot activeId targetId (activeId \<in> set (storageOrder s)) s"
    using assms(4) handleDragEnd_equip [OF assms(1-3)] by auto
  have it: "items (h activeId targetId s) = items s" by (simp add: h)
  have sl: "slots (h activeId targetId s) k =
              (if k = targetId then Some activeId
               else if isSlotId k \<and> slots s k = Some activeId then None
               else slots s k)" for k
    by (simp add: h clearFromSlots_apply)
  have st: "storageOrder (h activeId targetId s) =
           (let pushed = (case slots s targetId of
                            None \<Rightarrow> storageOrder s
                          | Some y \<Rightarrow> if y \<noteq> [] \<and> y \<notin> set (storageOrder s)
                                      then storageOrder s @ [y] else storageOrder s)
            in if activeId \<in> set (storageOrder s)
               then filter (\<lambda>x. x \<noteq> activeId) pushed else pushed)"
    by (simp only: h equipInSlot_storage)
  have co: "storageOrder (h activeId targetId s) \<noteq> [] \<and>
            last (storageOrder (h activeId targetId s)) = y \<and>
            slots (h activeId targetId s) targetId = Some activeId \<and>
            activeId \<notin> set (storageOrder (h activeId targetId s))"
    if y: "slots s targetId = Some y \<and> y \<noteq> [] \<and> y \<noteq> activeId \<and> y \<notin> set (storageOrder s)"
    for y
  proof -
    have "storageOrder (h activeId targetId s) =
            (if activeId \<in> set (storageOrder s)
             then filter (\<lambda>x. x \<noteq> activeId) (storageOrder s) @ [y]
             else storageOrder s @ [y])"
      using y by (simp add: st)
    then show ?thesis using y by (auto simp: sl)
  qed
  show ?thesis using it sl st co by blast
qed

theorem equip_into_slot_witness:
  "isSlotId ''mainHand'' \<and>
   slots state_sword_equipped ''mainHand'' = Some ''sword'' \<and>
   storageOrder (handleDragEnd_p0 ''shield'' ''mainHand'' state_sword_equipped) = [''sword''] \<and>
   last (storageOrder (handleDragEnd_p0 ''shield'' ''mainHand'' state_sword_equipped)) = ''sword'' \<and>
   slots (handleDragEnd_p0 ''shield'' ''mainHand'' state_sword_equipped) ''mainHand''
     = Some ''shield'' \<and>
   ''shield'' \<notin> set (storageOrder (handleDragEnd_p0 ''shield'' ''mainHand'' state_sword_equipped))"
proof -
  have a: "isSlotId ''mainHand''" by (simp add: isSlotId_def SLOT_IDS_def)
  have b: "''shield'' \<noteq> []" by simp
  have c: "''mainHand'' \<notin> set (storageOrder state_sword_equipped)"
    by (simp add: state_sword_equipped_def)
  have d: "slots state_sword_equipped ''mainHand'' = Some ''sword''"
    "storageOrder state_sword_equipped = [''shield'']"
    by (simp_all add: state_sword_equipped_def)
  show ?thesis
    using equip_into_slot [OF a b c, of handleDragEnd_p0] a d by simp
qed

text \<open>
  Claim C4.  Let \<open>activeId\<close> be a non-empty id, let the container identifier
  \<^verbatim>\<open>storage\<close> not be a member of the storage order (it is not an item id), and let
  \<open>h\<close> be either version of \<^verbatim>\<open>handleDragEnd\<close>.  Then for every state, dropping
  \<open>activeId\<close> onto the container leaves the catalog unchanged, empties every equipment
  slot that held \<open>activeId\<close> and leaves the other slots as they were, appends
  \<open>activeId\<close> to the storage order when it was not a member, and leaves the storage
  order as it was when \<open>activeId\<close> was a member.
\<close>

theorem drop_on_storage_container:
  assumes "activeId \<noteq> []" and "''storage'' \<notin> set (storageOrder s)"
    and "h = handleDragEnd_p0 \<or> h = handleDragEnd_app"
  shows "items (h activeId ''storage'' s) = items s \<and>
         (\<forall>k. slots (h activeId ''storage'' s) k =
                (if isSlotId k \<and> slots s k = Some activeId then None else slots s k)) \<and>
         (\<forall>k. isSlotId k \<longrightarrow> slots (h activeId ''storage'' s) k \<noteq> Some activeId) \<and>
         (activeId \<notin> set (storageOrder s) \<longrightarrow>
            storageOrder (h activeId ''storage'' s) = storageOrder s @ [activeId]) \<and>
         (activeId \<in> set (storageOrder s) \<longrightarrow>
            storageOrder (h activeId ''storage'' s) = storageOrder s)"
proof -
  have h: "h activeId ''storage'' s =
             dropOnStorage activeId (activeId \<in> set (storageOrder s)) s"
    using assms(3) handleDragEnd_container [OF assms(1,2)] by auto
  show ?thesis by (simp add: h clearFromSlots_apply)
qed

theorem drop_on_storage_container_witness:
  "''storage'' \<notin> set (storageOrder state_sword_equipped) \<and>
   storageOrder (handleDragEnd_app ''sword'' ''storage'' state_sword_equipped)
     = [''shield'', ''sword''] \<and>
   slots (handleDragEnd_app ''sword'' ''storage'' state_sword_equipped) ''mainHand'' = None \<and>
   storageOrder (handleDragEnd_app ''shield'' ''storage'' state_sword_equipped) = [''shield'']"
proof -
  have a: "''sword'' \<noteq> []" "''shield'' \<noteq> []" by simp_all
  have b: "''storage'' \<notin> set (storageOrder state_sword_equipped)"
    by (simp add: state_sword_equipped_def)
  have c: "isSlotId ''mainHand''" by (simp add: isSlotId_def SLOT_IDS_def)
  have d: "slots state_sword_equipped ''mainHand'' = Some ''sword''"
    "storageOrder state_sword_equipped = [''shield'']"
    by (simp_all add: state_sword_equipped_def)
  show ?thesis
    using drop_on_storage_container [OF a(1) b, of handleDragEnd_app]
      drop_on_storage_container [OF a(2) b, of handleDragEnd_app] b c d
    by simp
qed

text \<open>
  The version of App.tsx has no insertion branch: a drop of an item that is not stored
  onto a stored item reaches the test for a slot identifier, and when the target is none
  the state is left as it is.
\<close>

lemma handleDragEnd_app_on_stored_item:
  assumes "targetId \<in> set (storageOrder s)" and "activeId \<notin> set (storageOrder s)"
    and "activeId \<noteq> []" and "targetId \<noteq> []" and "targetId \<noteq> ''storage''"
  shows "handleDragEnd_app activeId targetId s =
           (if isSlotId targetId then equipInSlot activeId targetId False s else s)"
  using assms by (auto simp: handleDragEnd_app_branches)

text \<open>
  Claim C5 on the two versions.  Let \<open>targetId\<close> be a member of the storage order, other
  than the container identifier, and \<open>activeId\<close> a non-empty id that is not a member.
  In the version of part_000 the catalog is unchanged, every equipment slot that held
  \<open>activeId\<close> is emptied and the other slots are as before, and the new storage order is
  the old one with \<open>activeId\<close> inserted at the index of \<open>targetId\<close>: \<open>activeId\<close> is at
  that index and \<open>targetId\<close> directly after it; \<^verbatim>\<open>moveToStorageAtIndex\<close> itself
  first removes the id from the storage order and then inserts it at the clamped index.
  In the version of App.tsx the same drop changes nothing when \<open>targetId\<close> is not a slot
  identifier (and takes the equipment branch when it is): \<open>activeId\<close> stays in its slot
  and out of the storage order.
\<close>

theorem drop_on_stored_item:
  assumes "targetId \<in> set (storageOrder s)" and "activeId \<notin> set (storageOrder s)"
    and "activeId \<noteq> []" and "targetId \<noteq> []" and "targetId \<noteq> ''storage''"
  shows "items (handleDragEnd_p0 activeId targetId s) = items s \<and>
         (\<forall>k. slots (handleDragEnd_p0 activeId targetId s) k =
                (if isSlotId k \<and> slots s k = Some activeId then None else slots s k)) \<and>
         storageOrder (handleDragEnd_p0 activeId targetId s) =
           insertAt (nat (indexOf (storageOrder s) targetId)) activeId (storageOrder s) \<and>
         storageOrder (handleDragEnd_p0 activeId targetId s)
           ! nat (indexOf (storageOrder s) targetId) = activeId \<and>
         storageOrder (handleDragEnd_p0 activeId targetId s)
           ! Suc (nat (indexOf (storageOrder s) targetId)) = targetId \<and>
         (\<forall>itemId toIndex. storageOrder (moveToStorageAtIndex itemId toIndex s) =
            insertAt
              (nat (max 0 (min toIndex
                 (int (length (filter (\<lambda>x. x \<noteq> itemId) (storageOrder s)))))))
              itemId (filter (\<lambda>x. x \<noteq> itemId) (storageOrder s))) \<and>
         handleDragEnd_app activeId targetId s =
           (if isSlotId targetId then equipInSlot activeId targetId False s else s) \<and>
         (\<not> isSlotId targetId \<longrightarrow>
            handleDragEnd_app activeId targetId s = s \<and>
            activeId \<notin> set (storageOrder (handleDragEnd_app activeId targetId s)))"
proof -
  let ?xs = "storageOrder s"
  let ?j = "nat (indexOf ?xs targetId)"
  have j: "0 \<le> indexOf ?xs targetId" "?j < length ?xs" "?xs ! ?j = targetId"
    using indexOf_mem [OF assms(1)] by auto
  have f: "filter (\<lambda>x. x \<noteq> activeId) ?xs = ?xs"
    using assms(2) by (auto simp: filter_id_conv)
  have c: "nat (max 0 (min (indexOf ?xs targetId) (int (length ?xs)))) = ?j"
    using j by simp
  have st: "storageOrder (handleDragEnd_p0 activeId targetId s) = insertAt ?j activeId ?xs"
    by (simp add: handleDragEnd_p0_insert [OF assms] moveToStorageAtIndex_storage f c)
  have n1: "insertAt ?j activeId ?xs ! ?j = activeId"
    using j(2) by (simp add: nth_insertAt)
  have n2: "insertAt ?j activeId ?xs ! Suc ?j = targetId"
    using j(2,3) by (simp add: nth_Suc_insertAt)
  have sl: "slots (handleDragEnd_p0 activeId targetId s) k =
              (if isSlotId k \<and> slots s k = Some activeId then None else slots s k)" for k
    by (simp add: handleDragEnd_p0_insert [OF assms] clearFromSlots_apply)
  have it: "items (handleDragEnd_p0 activeId targetId s) = items s"
    by (simp add: handleDragEnd_p0_insert [OF assms])
  have p0: "items (handleDragEnd_p0 activeId targetId s) = items s \<and>
         (\<forall>k. slots (handleDragEnd_p0 activeId targetId s) k =
                (if isSlotId k \<and> slots s k = Some activeId then None else slots s k)) \<and>
         storageOrder (handleDragEnd_p0 activeId targetId s) = insertAt ?j activeId ?xs \<and>
         storageOrder (handleDragEnd_p0 activeId targetId s) ! ?j = activeId \<and>
         storageOrder (handleDragEnd_p0 activeId targetId s) ! Suc ?j = targetId"
    using it sl st n1 n2 by metis
  have mv: "\<forall>itemId toIndex. storageOrder (moveToStorageAtIndex itemId toIndex s) =
            insertAt
              (nat (max 0 (min toIndex
                 (int (length (filter (\<lambda>x. x \<noteq> itemId) (storageOrder s)))))))
              itemId (filter (\<lambda>x. x \<noteq> itemId) (storageOrder s))"
    by (simp add: moveToStorageAtIndex_storage)
  have app: "handleDragEnd_app activeId targetId s =
           (if isSlotId targetId then equipInSlot activeId targetId False s else s)"
    by (rule handleDragEnd_app_on_stored_item [OF assms])
  have ign: "handleDragEnd_app activeId targetId s = s \<and>
            activeId \<notin> set (storageOrder (handleDragEnd_app activeId targetId s))"
    if "\<not> isSlotId targetId"
    using that assms(2) by (simp add: app)
  show ?thesis using p0 mv app ign by blast
qed

theorem drop_on_stored_item_witness:
  "''shield'' \<in> set (storageOrder state_sword_equipped) \<and>
   ''sword'' \<notin> set (storageOrder state_sword_equipped) \<and>
   \<not> isSlotId ''shield'' \<and>
   storageOrder (handleDragEnd_p0 ''sword'' ''shield'' state_sword_equipped)
     = [''sword'', ''shield''] \<and>
   slots (handleDragEnd_p0 ''sword'' ''shield'' state_sword_equipped) ''mainHand'' = None \<and>
   handleDragEnd_app ''sword'' ''shield'' state_sword_equipped = state_sword_equipped \<and>
   storageOrder (handleDragEnd_app ''sword'' ''shield'' state_sword_equipped) = [''shield''] \<and>
   slots (handleDragEnd_app ''sword'' ''shield'' state_sword_equipped) ''mainHand''
     = Some ''sword''"
proof -
  have a: "''shield'' \<in> set (storageOrder state_sword_equipped)"
    "''sword'' \<notin> set (storageOrder state_sword_equipped)"
    by (simp_all add: state_sword_equipped_def)
  have b: "''sword'' \<noteq> []" "''shield'' \<noteq> []" "''shield'' \<noteq> ''storage''" by simp_all
  have c: "isSlotId ''mainHand''" "\<not> isSlotId ''shield''"
    by (simp_all add: isSlotId_def SLOT_IDS_def)
  have d: "slots state_sword_equipped ''mainHand'' = Some ''sword''"
    "storageOrder state_sword_equipped = [''shield'']"
    by (simp_all add: state_sword_equipped_def)
  show ?thesis
    using drop_on_stored_item [OF a b] a c d by (simp add: insertAt_def)
qed

section \<open>Removal\<close>

lemma deleteItem_sel [simp]:
  "items (deleteItem i s) = filter (\<lambda>it. item_id it \<noteq> i) (items s)"
  "storageOrder (deleteItem i s) = filter (\<lambda>x. x \<noteq> i) (storageOrder s)"
  "slots (deleteItem i s) = clearFromSlots i (slots s)"
  by (simp_all add: deleteItem_def)

lemma equippedIds_iff: "x \<in> equippedIds s \<longleftrightarrow> (\<exists>k. isSlotId k \<and> slots s k = Some x)"
  unfolding equippedIds_def isSlotId_def image_iff by (simp, metis)

lemma deleteItem_absent:
  assumes "i \<notin> catalogIds s" "i \<notin> set (storageOrder s)" "i \<notin> equippedIds s"
  shows "deleteItem i s = s"
proof (rule state_eqI)
  have "\<forall>it\<in>set (items s). item_id it \<noteq> i"
    using assms(1) by (auto simp: catalogIds_def)
  then show "items (deleteItem i s) = items s" by (simp add: filter_id_conv)
  have "\<forall>x\<in>set (storageOrder s). x \<noteq> i" using assms(2) by auto
  then show "storageOrder (deleteItem i s) = storageOrder s" by (simp add: filter_id_conv)
  have "clearFromSlots i (slots s) k = slots s k" for k
    using assms(3) by (auto simp: clearFromSlots_apply equippedIds_iff)
  then show "slots (deleteItem i s) = slots s" by (simp add: fun_eq_iff)
qed

text \<open>
  Claim C7.  For every state and every id: after \<^verbatim>\<open>deleteItem\<close> the id is not an id
  of the catalog, not in the storage order and held by no equipment slot; the catalog and
  the storage order are the old ones without the entries of that id, in the old order, and
  every slot that held another id holds it still.  \<^verbatim>\<open>deleteItem\<close> is a total function
  and has no error result.  When the id occurs nowhere in the state the state is
  unchanged; in particular, when the state has no dangling reference (every stored or
  equipped id is an id of the catalog) and the catalog has no item with that id, the state
  is unchanged.
\<close>

theorem remove_purges_everywhere:
  "i \<notin> catalogIds (deleteItem i s) \<and>
   i \<notin> set (storageOrder (deleteItem i s)) \<and>
   i \<notin> equippedIds (deleteItem i s) \<and>
   items (deleteItem i s) = filter (\<lambda>it. item_id it \<noteq> i) (items s) \<and>
   storageOrder (deleteItem i s) = filter (\<lambda>x. x \<noteq> i) (storageOrder s) \<and>
   (\<forall>k. slots (deleteItem i s) k =
          (if isSlotId k \<and> slots s k = Some i then None else slots s k)) \<and>
   (i \<notin> catalogIds s \<and> i \<notin> set (storageOrder s) \<and> i \<notin> equippedIds s \<longrightarrow>
      deleteItem i s = s) \<and>
   (refsInCatalog s \<and> i \<notin> catalogIds s \<longrightarrow> deleteItem i s = s)"
proof -
  have a: "i \<notin> catalogIds (deleteItem i s)" by (auto simp: catalogIds_def)
  have b: "i \<notin> set (storageOrder (deleteItem i s))" by simp
  have c: "i \<notin> equippedIds (deleteItem i s)"
    by (simp add: equippedIds_iff clearFromSlots_apply)
  have d: "slots (deleteItem i s) k =
          (if isSlotId k \<and> slots s k = Some i then None else slots s k)" for k
    by (simp add: clearFromSlots_apply)
  have e: "deleteItem i s = s"
    if "i \<notin> catalogIds s \<and> i \<notin> set (storageOrder s) \<and> i \<notin> equippedIds s"
    using that by (simp add: deleteItem_absent)
  have f: "deleteItem i s = s" if "refsInCatalog s \<and> i \<notin> catalogIds s"
  proof -
    from that have "i \<notin> set (storageOrder s)" "i \<notin> equippedIds s"
      by (auto simp: refsInCatalog_def)
    then show ?thesis using that by (simp add: deleteItem_absent)
  qed
  show ?thesis using a b c d e f by simp
qed

theorem remove_purges_everywhere_witness:
  "refsInCatalog state_sword_equipped \<and>
   ''potion'' \<notin> catalogIds state_sword_equipped \<and>
   deleteItem ''potion'' state_sword_equipped = state_sword_equipped \<and>
   slots (deleteItem ''sword'' state_sword_equipped) ''mainHand'' = None \<and>
   storageOrder (deleteItem ''shield'' state_sword_equipped) = []"
proof -
  have a: "catalogIds state_sword_equipped = {''sword'', ''shield''}"
    by (simp add: catalogIds_def state_sword_equipped_def item_named_def)
  have b: "equippedIds state_sword_equipped = {''sword''}"
    by (auto simp: equippedIds_def state_sword_equipped_def SLOT_IDS_def)
  have c: "storageOrder state_sword_equipped = [''shield'']"
    "slots state_sword_equipped ''mainHand'' = Some ''sword''"
    by (simp_all add: state_sword_equipped_def)
  have d: "refsInCatalog state_sword_equipped" by (simp add: refsInCatalog_def a b c)
  have e: "''potion'' \<notin> catalogIds state_sword_equipped" by (simp add: a)
  have f: "isSlotId ''mainHand''" by (simp add: isSlotId_def SLOT_IDS_def)
  show ?thesis
    using remove_purges_everywhere [of "''potion''" state_sword_equipped]
      remove_purges_everywhere [of "''sword''" state_sword_equipped]
      remove_purges_everywhere [of "''shield''" state_sword_equipped] c d e f
    by simp
qed

section \<open>Creation\<close>











section \<open>The stats text\<close>

text \<open>
  Claim C9 at a pair without \<^verbatim>\<open>=\<close>.  For the stats text \<^verbatim>\<open>heavy\<close> the result has
  the key \<^verbatim>\<open>heavy\<close>, with the value \<^verbatim>\<open>undefined\<close>; for
  \<^verbatim>\<open>attack=5, heavy\<close> it has both keys.  This holds for every reading of numbers.
\<close>

theorem stats_pair_without_equals_is_stored:
  "parseStats toNumber (codeUnits ''heavy'') (codeUnits ''heavy'') = Some Undefined \<and>
   dom (parseStats toNumber (codeUnits ''heavy'')) = {codeUnits ''heavy''} \<and>
   parseStats toNumber (codeUnits ''attack=5, heavy'') (codeUnits ''heavy'')
     = Some Undefined \<and>
   parseStats toNumber (codeUnits ''attack=5, heavy'') (codeUnits ''attack'')
     = Some (statValue toNumber (Some (codeUnits ''5'')))"
  by (simp add: parseStats_def parsePair_def assignStat_def statValue_def trim_def
      is_space_def codeUnits_def dom_def)

text \<open>A pair whose key is empty after trimming contributes nothing.\<close>

lemma parsePair_empty_key:
  "trim (hd (split 61 pair)) = [] \<Longrightarrow> parsePair toNumber pair stats = stats"
  by (cases "split 61 pair" rule: list.exhaust)
    (auto simp: parsePair_def split: list.splits)

section \<open>The partition outside the re-drop\<close>

text \<open>
  Every admissible request other than a re-drop keeps the partition, in both versions,
  on states without duplication in which no slot holds the empty id; reachable states are
  such states.
\<close>

lemma equippedIds_cleared:
  "slots s' = clearFromSlots a (slots s) \<Longrightarrow> equippedIds s' = equippedIds s - {a}"
proof -
  assume a: "slots s' = clearFromSlots a (slots s)"
  have "slots s' k = Some x \<longleftrightarrow> slots s k = Some x \<and> (isSlotId k \<longrightarrow> x \<noteq> a)" for k x
    by (auto simp: a clearFromSlots_apply)
  then show ?thesis by (auto simp: equippedIds_iff)
qed

lemma equippedIds_equip:
  assumes "slots s' = (clearFromSlots a (slots s))(t := Some a)" "isSlotId t"
    "slotsInjective (slots s)"
  shows "equippedIds s' =
           insert a (equippedIds s - (case slots s t of None \<Rightarrow> {} | Some r \<Rightarrow> {r}))"
proof (rule set_eqI)
  fix x
  show "x \<in> equippedIds s' \<longleftrightarrow>
        x \<in> insert a (equippedIds s - (case slots s t of None \<Rightarrow> {} | Some r \<Rightarrow> {r}))"
  proof (cases "x = a")
    case True
    then show ?thesis using assms(1,2) by (auto simp: equippedIds_iff)
  next
    case False
    have "slots s' k = Some x \<longleftrightarrow> k \<noteq> t \<and> slots s k = Some x" for k
      using False by (auto simp: assms(1) clearFromSlots_apply)
    then have "(\<exists>k. isSlotId k \<and> slots s' k = Some x) \<longleftrightarrow>
          (\<exists>k. isSlotId k \<and> k \<noteq> t \<and> slots s k = Some x)"
      by simp
    also have "\<dots> \<longleftrightarrow> (\<exists>k. isSlotId k \<and> slots s k = Some x) \<and> slots s t \<noteq> Some x"
    proof -
      have "k = t" if "isSlotId k" "slots s k = Some x" "slots s t = Some x" for k
        using slotsInjectiveD [OF assms(3) that(1) assms(2)] that by simp
      then show ?thesis by auto
    qed
    finally show ?thesis using False by (auto simp: equippedIds_iff split: option.splits)
  qed
qed

lemma partitioned_deleteItem: "partitioned s \<Longrightarrow> partitioned (deleteItem i s)"
proof -
  assume p: "partitioned s"
  have e: "equippedIds (deleteItem i s) = equippedIds s - {i}"
    by (rule equippedIds_cleared) simp
  have c: "catalogIds (deleteItem i s) = catalogIds s - {i}"
    by (auto simp: catalogIds_def)
  show ?thesis using p unfolding partitioned_def e c by auto
qed

lemma partitioned_reorder:
  assumes "partitioned s" "a \<in> set (storageOrder s)" "t \<in> set (storageOrder s)"
  shows "partitioned (reorderInStorage a t s)"
proof -
  have "set (storageOrder (reorderInStorage a t s)) = set (storageOrder s)"
    using mset_reorderInStorage [OF assms(2,3)] by (rule mset_eq_setD)
  moreover have "equippedIds (reorderInStorage a t s) = equippedIds s"
    by (simp add: equippedIds_def)
  moreover have "catalogIds (reorderInStorage a t s) = catalogIds s"
    by (simp add: catalogIds_def)
  ultimately show ?thesis using assms(1) by (simp add: partitioned_def)
qed

lemma partitioned_dropOnStorage:
  assumes "partitioned s"
  shows "partitioned (dropOnStorage a (a \<in> set (storageOrder s)) s)"
proof -
  let ?s = "dropOnStorage a (a \<in> set (storageOrder s)) s"
  have e: "equippedIds ?s = equippedIds s - {a}" by (rule equippedIds_cleared) simp
  have c: "catalogIds ?s = catalogIds s" by (simp add: catalogIds_def)
  have st: "set (storageOrder ?s) = insert a (set (storageOrder s))" by auto
  show ?thesis using assms unfolding partitioned_def e c st by auto
qed

lemma partitioned_insert:
  assumes "partitioned s"
  shows "partitioned (moveToStorageAtIndex a i (unequipEverywhere a s))"
proof -
  let ?s = "moveToStorageAtIndex a i (unequipEverywhere a s)"
  have e: "equippedIds ?s = equippedIds s - {a}" by (rule equippedIds_cleared) simp
  have c: "catalogIds ?s = catalogIds s" by (simp add: catalogIds_def)
  have st: "set (storageOrder ?s) = insert a (set (storageOrder s))"
    by (auto simp: moveToStorageAtIndex_storage set_insertAt)
  show ?thesis using assms unfolding partitioned_def e c st by auto
qed

lemma partitioned_equip:
  assumes "partitioned s" "slotsInjective (slots s)" "[] \<notin> equippedIds s" "isSlotId t"
    and "slots s t \<noteq> Some a"
  shows "partitioned (equipInSlot a t (a \<in> set (storageOrder s)) s)"
proof -
  let ?s = "equipInSlot a t (a \<in> set (storageOrder s)) s"
  have e: "equippedIds ?s =
             insert a (equippedIds s - (case slots s t of None \<Rightarrow> {} | Some r \<Rightarrow> {r}))"
    by (rule equippedIds_equip [OF _ assms(4,2)]) simp
  have c: "catalogIds ?s = catalogIds s" by (simp add: catalogIds_def)
  have d: "set (storageOrder s) \<inter> equippedIds s = {}"
    and q: "catalogIds s \<subseteq> set (storageOrder s) \<union> equippedIds s"
    using assms(1) by (simp_all add: partitioned_def)
  show ?thesis
  proof (cases "slots s t")
    case None
    then have st: "set (storageOrder ?s) = set (storageOrder s) - {a}"
      by (auto simp: equipInSlot_storage Let_def)
    show ?thesis using d q None unfolding partitioned_def e c st by auto
  next
    case (Some r)
    have r: "r \<in> equippedIds s" using Some assms(4) by (auto simp: equippedIds_iff)
    then have "r \<noteq> []" "r \<notin> set (storageOrder s)" using assms(3) d by auto
    moreover have "r \<noteq> a" using Some assms(5) by simp
    ultimately have st: "set (storageOrder ?s) = insert r (set (storageOrder s) - {a})"
      using Some by (auto simp: equipInSlot_storage Let_def)
    show ?thesis using d q Some \<open>r \<noteq> a\<close> unfolding partitioned_def e c st by auto
  qed
qed

lemma noEmptyEquipped_handleDragEnd:
  assumes "[] \<notin> equippedIds s"
  shows "[] \<notin> equippedIds (handleDragEnd_p0 a t s)"
    and "[] \<notin> equippedIds (handleDragEnd_app a t s)"
  using assms
  by (auto simp: handleDragEnd_p0_branches handleDragEnd_app_branches equippedIds_iff
      clearFromSlots_apply split: if_splits)

lemma partitioned_handleDragEnd:
  assumes "partitioned s" "slotsInjective (slots s)" "[] \<notin> equippedIds s"
    and "slots s t \<noteq> Some a"
  shows "partitioned (handleDragEnd_p0 a t s)" and "partitioned (handleDragEnd_app a t s)"
  using assms
  by (simp_all add: handleDragEnd_p0_branches handleDragEnd_app_branches partitioned_reorder
      partitioned_dropOnStorage partitioned_insert partitioned_equip)

lemma partitioned_initial: "partitioned initial"
  by (simp add: partitioned_def initial_def equippedIds_def catalogIds_def)

lemma partitioned_create:
  assumes "partitioned s" "admissible s (Create uid nm ic de st)"
  shows "partitioned (apply_p0 (Create uid nm ic de st) s)"
    and "partitioned (apply_app toNumber (Create uid nm ic de st) s)"
  using assms
  by (auto simp: partitioned_def addItem_p0_def addItem_app_def Let_def catalogIds_def
      equippedIds_def)

lemma partition_kept_without_redrop:
  assumes "partitioned s" and "noDuplication s" and "[] \<notin> equippedIds s"
    and "admissible s r" and "\<not> isRedrop s r"
  shows "partitioned (apply_p0 r s) \<and> partitioned (apply_app toNumber r s)"
proof (cases r)
  case (Create uid nm ic de st)
  then show ?thesis using assms(1,4) partitioned_create by blast
next
  case (Remove i)
  then show ?thesis using assms(1) by (simp add: partitioned_deleteItem)
next
  case (Move a t)
  then have "slots s t \<noteq> Some a" using assms(5) by (simp add: isRedrop_def)
  then show ?thesis
    using Move assms(1-3) partitioned_handleDragEnd [of s t a]
    by (simp add: noDuplication_def)
qed

lemma noEmptyEquipped_reachable:
  assumes "reachable apply_p0 s \<or> reachable (apply_app toNumber) s"
  shows "[] \<notin> equippedIds s"
proof -
  have i: "[] \<notin> equippedIds (initial :: 'a state)"
    by (simp add: equippedIds_iff initial_def)
  have d: "[] \<notin> equippedIds (deleteItem j s)" if "[] \<notin> equippedIds s" for j and s :: "'a state"
    using that by (auto simp: equippedIds_iff clearFromSlots_apply split: if_splits)
  have c0: "equippedIds (apply_p0 (Create uid nm ic de st) s) = equippedIds s"
    for uid nm ic de st and s :: "'a state"
    by (simp add: addItem_p0_def Let_def equippedIds_def)
  have c1: "equippedIds (apply_app toNumber (Create uid nm ic de st) s) = equippedIds s"
    for uid nm ic de st and s :: "'a state"
    by (simp add: addItem_app_def Let_def equippedIds_def)
  have p: "[] \<notin> equippedIds (apply_p0 r s)" if "[] \<notin> equippedIds s" for r and s :: "'a state"
  proof (cases r)
    case (Create uid nm ic de st)
    then show ?thesis using that by (simp only: c0 not_False_eq_True)
  next
    case (Remove j)
    then show ?thesis using d [OF that] by simp
  next
    case (Move x y)
    then show ?thesis using noEmptyEquipped_handleDragEnd(1) [OF that] by simp
  qed
  have a: "[] \<notin> equippedIds (apply_app toNumber r s)" if "[] \<notin> equippedIds s"
    for r and s :: "'a state"
  proof (cases r)
    case (Create uid nm ic de st)
    then show ?thesis using that by (simp only: c1 not_False_eq_True)
  next
    case (Remove j)
    then show ?thesis using d [OF that] by simp
  next
    case (Move x y)
    then show ?thesis using noEmptyEquipped_handleDragEnd(2) [OF that] by simp
  qed
  have "[] \<notin> equippedIds s" if "reachable apply_p0 s"
    using that by (induction rule: reachable.induct) (auto simp: i p)
  moreover have "[] \<notin> equippedIds s" if "reachable (apply_app toNumber) s"
    using that by (induction rule: reachable.induct) (auto simp: i a)
  ultimately show ?thesis using assms by blast
qed

end
